theory Spec2Isabelle
  imports Complex_Main "HOL-Library.Log_Nat" "HOL-Library.Product_Lexorder"
    "HOL-Library.Code_Target_Nat"
begin

section \<open>Dose logging: the route registry, the dose parser and the query chain\<close>

text \<open>
  The development embeds \<^verbatim>\<open>doselog.py\<close>. Conventions of the embedding:
  \<^item> a Python \<^verbatim>\<open>str\<close> is a \<open>string\<close>; every \<open>char\<close> stands for the code point of the
    same number, so the strings covered are those over code points 0 to 255, and the
    character classes below are CPython's Unicode classes on that range;
  \<^item> a Python \<^verbatim>\<open>float\<close> is an IEEE 754 binary64 value of type \<open>float\<close>: a finite value,
    an infinity or NaN, and every arithmetic operation rounds its exact result to the
    nearest double;
  \<^item> a \<^verbatim>\<open>datetime\<close> is represented by the two observations the program makes of it:
    its calendar year (\<^verbatim>\<open>.year\<close>) and its position on the time line in microseconds
    (comparison and subtraction); \<^verbatim>\<open>datetime.now()\<close> is an explicit argument;
  \<^item> a method that mutates \<^verbatim>\<open>self\<close> and returns it is a function from the store to the
    new store; a method that also prints returns the printed lines beside the store;
  \<^item> an exception is a value of type \<open>exn\<close>; a function that can raise returns
    \<open>exn + 'a\<close>, and \<^verbatim>\<open>try\<close>/\<^verbatim>\<open>except\<close> is the case distinction on that result.
\<close>

subsection \<open>Exceptions\<close>

datatype exn = DoseParsingError string | IndexError | ZeroDivisionError

subsection \<open>Floats\<close>

text \<open>
  \<open>Finite q\<close> is the double whose value is the rational \<open>q\<close>; the two zeros are one
  value, since they compare equal and the program applies no operation that tells them
  apart. An operation on finite values computes the exact rational result and rounds it
  to the nearest double, a tie going to the even significand, a result of magnitude
  \<open>2 ^ 1024\<close> or more becoming an infinity, and a result below the least normal double
  being rounded on the subnormal grid of spacing \<open>2 ^ -1074\<close>.
\<close>

datatype float = Finite rat | PInf | NInf | NaN

definition ilog2 :: "rat \<Rightarrow> int" where
  \<comment> \<open>the exponent \<open>k\<close> with \<open>2 ^ k \<le> q < 2 ^ (k + 1)\<close>, for a positive \<open>q\<close>\<close>
  "ilog2 q =
     (let k = bitlen (fst (quotient_of q)) - bitlen (snd (quotient_of q))
      in if 2 powi k \<le> q then k else k - 1)"

definition round_half_even :: "rat \<Rightarrow> int" where
  "round_half_even x =
     (let f = \<lfloor>x\<rfloor>; r = x - of_int f
      in if r < 1 / 2 then f else if 1 / 2 < r then f + 1
         else if even f then f else f + 1)"

definition round64 :: "rat \<Rightarrow> float" where
  \<comment> \<open>the double nearest to \<open>q\<close>: 53 significant bits, least exponent \<open>-1074\<close>\<close>
  "round64 q =
     (if q = 0 then Finite 0
      else
        let a = \<bar>q\<bar>;
            e = max (ilog2 a - 52) (- 1074);
            v = of_int (round_half_even (a / 2 powi e)) * 2 powi e
        in if 2 powi 1024 \<le> v then (if q < 0 then NInf else PInf)
           else Finite (if q < 0 then - v else v))"

fun fadd :: "float \<Rightarrow> float \<Rightarrow> float" where
  "fadd NaN y = NaN"
| "fadd x NaN = NaN"
| "fadd (Finite x) (Finite y) = round64 (x + y)"
| "fadd PInf NInf = NaN"
| "fadd NInf PInf = NaN"
| "fadd PInf y = PInf"
| "fadd x PInf = PInf"
| "fadd NInf y = NInf"
| "fadd x NInf = NInf"

fun fmul :: "float \<Rightarrow> float \<Rightarrow> float" where
  "fmul NaN y = NaN"
| "fmul x NaN = NaN"
| "fmul (Finite x) (Finite y) = round64 (x * y)"
| "fmul (Finite x) PInf = (if x = 0 then NaN else if 0 < x then PInf else NInf)"
| "fmul (Finite x) NInf = (if x = 0 then NaN else if 0 < x then NInf else PInf)"
| "fmul PInf (Finite y) = (if y = 0 then NaN else if 0 < y then PInf else NInf)"
| "fmul NInf (Finite y) = (if y = 0 then NaN else if 0 < y then NInf else PInf)"
| "fmul PInf PInf = PInf"
| "fmul NInf NInf = PInf"
| "fmul PInf NInf = NInf"
| "fmul NInf PInf = NInf"

fun fquot :: "float \<Rightarrow> float \<Rightarrow> float" where
  \<comment> \<open>the quotient by a divisor other than zero\<close>
  "fquot NaN y = NaN"
| "fquot x NaN = NaN"
| "fquot (Finite x) (Finite y) = round64 (x / y)"
| "fquot (Finite x) PInf = Finite 0"
| "fquot (Finite x) NInf = Finite 0"
| "fquot PInf (Finite y) = (if 0 < y then PInf else NInf)"
| "fquot NInf (Finite y) = (if 0 < y then NInf else PInf)"
| "fquot x y = NaN"

definition fdiv :: "float \<Rightarrow> float \<Rightarrow> exn + float" where
  \<comment> \<open>\<^verbatim>\<open>x / y\<close>, which raises on a zero divisor whatever the dividend\<close>
  "fdiv x y = (if y = Finite 0 then Inl ZeroDivisionError else Inr (fquot x y))"

definition float_key :: "float \<Rightarrow> int \<times> rat" where
  \<comment> \<open>the order of the values other than NaN: \<open>-inf\<close>, the finite values, \<open>+inf\<close>\<close>
  "float_key x = (case x of Finite q \<Rightarrow> (0, q) | PInf \<Rightarrow> (1, 0) | NInf \<Rightarrow> (- 1, 0) | NaN \<Rightarrow> (2, 0))"

definition flt :: "float \<Rightarrow> float \<Rightarrow> bool" where
  \<comment> \<open>\<^verbatim>\<open>x < y\<close>, false as soon as one side is NaN\<close>
  "flt x y = (x \<noteq> NaN \<and> y \<noteq> NaN \<and> float_key x < float_key y)"

definition fle :: "float \<Rightarrow> float \<Rightarrow> bool" where
  \<comment> \<open>\<^verbatim>\<open>x <= y\<close>\<close>
  "fle x y = (x \<noteq> NaN \<and> y \<noteq> NaN \<and> float_key x \<le> float_key y)"

definition py_sorted :: "float list \<Rightarrow> float list option" where
  \<comment> \<open>\<^verbatim>\<open>sorted(..)\<close>, a stable sort by \<^verbatim>\<open><\<close>. On a list holding NaN the order it leaves
      depends on the sorting algorithm: that case is outside the embedding (\<open>None\<close>).\<close>
  "py_sorted xs = (if NaN \<in> set xs then None else Some (sort_key float_key xs))"

definition py_sum :: "float list \<Rightarrow> float" where
  \<comment> \<open>\<^verbatim>\<open>sum(..)\<close>: the additions from the left, starting from 0, as CPython up to 3.11
      performs them; from 3.12 on \<^verbatim>\<open>sum\<close> compensates the rounding errors of a sum of
      floats, and its value on two or more amounts can differ in the last bits.\<close>
  "py_sum xs = foldl fadd (Finite 0) xs"

subsection \<open>Data model\<close>

record datetime =
  year :: int
  instant :: int

record DoseEntry =
  substance :: string
  amount :: float
  route :: string
  timestamp :: datetime
  unit :: string

record User =
  name :: string
  entries :: "DoseEntry list"
  filtered_entries :: "DoseEntry list"

subsection \<open>Route registry\<close>

definition ADMINISTRATION_METHODS :: "(string \<times> string list) list" where
  "ADMINISTRATION_METHODS =
    [(''oral'', [''oral'', ''swallowed'', ''chewed'', ''@ate'']),
     (''insufflation'', [''insufflation'', ''snorted'', ''intranasal'', ''nasal'', ''@sniffed'']),
     (''inhalation'', [''inhalation'', ''inhaled'', ''smoked'', ''vaporized'']),
     (''intravenous'', [''intravenous-injection'', ''intra-arterial'', ''injected'', ''@injected'']),
     (''intramuscular'', [''intramuscular-injection'']),
     (''subcutaneous'', [''subcutaneous-injection'', ''intradermal'']),
     (''rectal'', [''rectal'', ''intrarectal'', ''plugged'', ''@boofed'']),
     (''transdermal'', [''transdermal'', ''dermal'', ''applied'', ''topical'']),
     (''sublingual'', [''sublingual'', ''dissolved'']),
     (''buccal'', [''buccal'']),
     (''other'',
       [''intravaginal'', ''intrathecal'', ''intraperitoneal'', ''intraosseous'',
        ''intravitreal'', ''intrapleural'', ''intrapericardial'', ''intravesical'',
        ''intralesional'', ''ocular'', ''otic'', ''epidural'', ''absorbed'',
        ''administered''])]"

text \<open>
  The dict comprehension visits the canonical routes in order and, within each, the
  aliases in order; a later pair overwrites an earlier one with the same key, so the
  lookup reads the pair list from its end.
\<close>

definition alias_pairs :: "(string \<times> string) list" where
  "alias_pairs =
     concat (map (\<lambda>(standard, aliases). map (\<lambda>alias. (alias, standard)) aliases)
       ADMINISTRATION_METHODS)"

definition ROUTE_ALIASES :: "string \<rightharpoonup> string" where
  "ROUTE_ALIASES = map_of (rev alias_pairs)"

subsection \<open>Character classes, trimming and numerals\<close>

definition is_space :: "char \<Rightarrow> bool" where
  \<comment> \<open>\<^verbatim>\<open>\s\<close> and \<^verbatim>\<open>str.strip()\<close>: tab to carriage return, FS to US, space, NEL, NBSP\<close>
  "is_space c =
     (let n = (of_char c :: nat)
      in (9 \<le> n \<and> n \<le> 13) \<or> (28 \<le> n \<and> n \<le> 32) \<or> n = 133 \<or> n = 160)"

definition is_digit :: "char \<Rightarrow> bool" where
  \<comment> \<open>\<^verbatim>\<open>\d\<close>\<close>
  "is_digit c = (let n = (of_char c :: nat) in 48 \<le> n \<and> n \<le> 57)"

definition is_name_char :: "char \<Rightarrow> bool" where
  \<comment> \<open>\<^verbatim>\<open>[a-zA-Z-]\<close>\<close>
  "is_name_char c =
     (let n = (of_char c :: nat)
      in (97 \<le> n \<and> n \<le> 122) \<or> (65 \<le> n \<and> n \<le> 90) \<or> n = 45)"

definition is_word :: "char \<Rightarrow> bool" where
  \<comment> \<open>\<^verbatim>\<open>\w\<close>: alphanumeric code points and the underscore\<close>
  "is_word c =
     (let n = (of_char c :: nat)
      in (48 \<le> n \<and> n \<le> 57) \<or> (65 \<le> n \<and> n \<le> 90) \<or> n = 95 \<or> (97 \<le> n \<and> n \<le> 122)
         \<or> n = 170 \<or> n = 178 \<or> n = 179 \<or> n = 181 \<or> n = 185 \<or> n = 186
         \<or> (188 \<le> n \<and> n \<le> 190) \<or> (192 \<le> n \<and> n \<le> 214) \<or> (216 \<le> n \<and> n \<le> 246)
         \<or> (248 \<le> n \<and> n \<le> 255))"

definition strip :: "string \<Rightarrow> string" where
  "strip s = rev (dropWhile is_space (rev (dropWhile is_space s)))"

definition lower_char :: "char \<Rightarrow> char" where
  \<comment> \<open>the upper-case letters below code point 256: \<open>A\<close> to \<open>Z\<close>, and 192 to 222 but 215\<close>
  "lower_char c =
     (let n = (of_char c :: nat)
      in if (65 \<le> n \<and> n \<le> 90) \<or> (192 \<le> n \<and> n \<le> 222 \<and> n \<noteq> 215)
         then char_of (n + 32) else c)"

definition lower :: "string \<Rightarrow> string" where
  \<comment> \<open>\<^verbatim>\<open>str.lower()\<close>\<close>
  "lower s = map lower_char s"

definition digit_val :: "char \<Rightarrow> nat" where
  "digit_val c = of_char c - 48"

definition digits_val :: "string \<Rightarrow> nat" where
  "digits_val ds = foldl (\<lambda>acc c. 10 * acc + digit_val c) 0 ds"

definition decimal_value :: "string \<Rightarrow> rat" where
  \<comment> \<open>the value of a text matched by \<^verbatim>\<open>\d+\.?\d*\<close>, read as a decimal numeral\<close>
  "decimal_value s =
     (let ip = takeWhile (\<lambda>c. c \<noteq> CHR ''.'') s;
          fp = drop 1 (dropWhile (\<lambda>c. c \<noteq> CHR ''.'') s)
      in of_nat (digits_val ip) + of_nat (digits_val fp) / 10 ^ length fp)"

definition py_float :: "string \<Rightarrow> float" where
  \<comment> \<open>\<^verbatim>\<open>float(..)\<close> on such a text: the double nearest to the decimal value, \<open>inf\<close> when
      the numeral is too large\<close>
  "py_float s = round64 (decimal_value s)"

subsection \<open>The two patterns\<close>

text \<open>
  Each piece of a pattern consumes a prefix of the remaining text and hands the rest
  on. The pieces of the two patterns are followed by a character outside their own
  class, so the greedy choice is the only one that can let the rest match.
\<close>

definition many1 :: "(char \<Rightarrow> bool) \<Rightarrow> string \<Rightarrow> (string \<times> string) option" where
  \<comment> \<open>\<^verbatim>\<open>\s+\<close>, \<^verbatim>\<open>[a-zA-Z-]+\<close>, \<^verbatim>\<open>\w+\<close>\<close>
  "many1 P s =
     (if takeWhile P s = [] then None else Some (takeWhile P s, dropWhile P s))"

definition amount_group :: "string \<Rightarrow> (string \<times> string) option" where
  \<comment> \<open>\<^verbatim>\<open>(\d+\.?\d*)\<close>\<close>
  "amount_group s =
     (case many1 is_digit s of
        None \<Rightarrow> None
      | Some (ip, r) \<Rightarrow>
          (case r of
             c # r' \<Rightarrow>
               if c = CHR ''.''
               then Some (ip @ [c] @ takeWhile is_digit r', dropWhile is_digit r')
               else Some (ip, r)
           | [] \<Rightarrow> Some (ip, r)))"

definition unit_group :: "string \<Rightarrow> (string \<times> string) option" where
  \<comment> \<open>\<^verbatim>\<open>(mg|ug|g|ml)\<close>, the alternatives in order\<close>
  "unit_group s =
     (if take 2 s = ''mg'' then Some (''mg'', drop 2 s)
      else if take 2 s = ''ug'' then Some (''ug'', drop 2 s)
      else if take 1 s = ''g'' then Some (''g'', drop 1 s)
      else if take 2 s = ''ml'' then Some (''ml'', drop 2 s)
      else None)"

definition verb_group :: "string \<Rightarrow> (string \<times> string) option" where
  \<comment> \<open>\<^verbatim>\<open>(@\w+)\<close>\<close>
  "verb_group s =
     (case s of
        [] \<Rightarrow> None
      | c # r \<Rightarrow>
          if c = CHR ''@''
          then (case many1 is_word r of
                  None \<Rightarrow> None
                | Some (w, r') \<Rightarrow> Some (c # w, r'))
          else None)"

definition at_end :: "string \<Rightarrow> bool" where
  \<comment> \<open>\<^verbatim>\<open>$\<close>: the end of the text, or just before a newline that ends it\<close>
  "at_end s = (s = [] \<or> s = [CHR 0x0A])"

definition match_standard :: "string \<Rightarrow> (string \<times> string \<times> string \<times> string) option" where
  \<comment> \<open>\<^verbatim>\<open>^(\d+\.?\d*)(mg|ug|g|ml)\s+([a-zA-Z-]+)\s+([a-zA-Z-]+)$\<close>\<close>
  "match_standard s =
     (case amount_group s of None \<Rightarrow> None | Some (amt, r1) \<Rightarrow>
     (case unit_group r1 of None \<Rightarrow> None | Some (un, r2) \<Rightarrow>
     (case many1 is_space r2 of None \<Rightarrow> None | Some (w1, r3) \<Rightarrow>
     (case many1 is_name_char r3 of None \<Rightarrow> None | Some (sub, r4) \<Rightarrow>
     (case many1 is_space r4 of None \<Rightarrow> None | Some (w2, r5) \<Rightarrow>
     (case many1 is_name_char r5 of None \<Rightarrow> None | Some (rt, r6) \<Rightarrow>
        if at_end r6 then Some (amt, un, sub, rt) else None))))))"

definition match_verb :: "string \<Rightarrow> (string \<times> string \<times> string \<times> string) option" where
  \<comment> \<open>\<^verbatim>\<open>^(@\w+)\s+(\d+\.?\d*)(mg|ug|g|ml)\s+([a-zA-Z-]+)$\<close>\<close>
  "match_verb s =
     (case verb_group s of None \<Rightarrow> None | Some (verb, r1) \<Rightarrow>
     (case many1 is_space r1 of None \<Rightarrow> None | Some (w1, r2) \<Rightarrow>
     (case amount_group r2 of None \<Rightarrow> None | Some (amt, r3) \<Rightarrow>
     (case unit_group r3 of None \<Rightarrow> None | Some (un, r4) \<Rightarrow>
     (case many1 is_space r4 of None \<Rightarrow> None | Some (w2, r5) \<Rightarrow>
     (case many1 is_name_char r5 of None \<Rightarrow> None | Some (sub, r6) \<Rightarrow>
        if at_end r6 then Some (verb, amt, un, sub) else None))))))"

subsection \<open>Parsing and logging\<close>

definition format_error :: string where
  "format_error =
     ''Invalid dose string format. Expected format: '' @
     [CHR 0x27] @ ''amount[unit] substance route'' @ [CHR 0x27] @ '' or '' @
     [CHR 0x27] @ ''@verb amount[unit] substance'' @ [CHR 0x27]"

definition parse_dose_string :: "string \<Rightarrow> exn + (float \<times> string \<times> string \<times> string)" where
  "parse_dose_string dose_string =
     (case match_standard (strip dose_string) of
        Some (amt, un, sub, rt) \<Rightarrow>
          if ROUTE_ALIASES rt = None
          then Inl (DoseParsingError (''Unknown route of administration: '' @ rt))
          else Inr (py_float amt, un, lower sub, rt)
      | None \<Rightarrow>
          (case match_verb (strip dose_string) of
             Some (verb, amt, un, sub) \<Rightarrow>
               if ROUTE_ALIASES verb = None
               then Inl (DoseParsingError (''Unknown verb command: '' @ verb))
               else Inr (py_float amt, un, lower sub, verb)
           | None \<Rightarrow> Inl (DoseParsingError format_error)))"

definition convert_amount :: "string \<Rightarrow> float \<Rightarrow> exn + float" where
  \<comment> \<open>\<^verbatim>\<open>amount / 1000\<close> for \<open>ug\<close>, \<^verbatim>\<open>amount * 1000\<close> for \<open>g\<close>; the integer 1000 is converted
      to the double 1000.0\<close>
  "convert_amount un a =
     (if un = ''ug'' then fdiv a (Finite 1000)
      else if un = ''g'' then Inr (fmul a (Finite 1000))
      else Inr a)"

definition log_dose_string_body :: "User \<Rightarrow> datetime \<Rightarrow> string \<Rightarrow> exn + User" where
  \<comment> \<open>the \<^verbatim>\<open>try\<close> block; \<^verbatim>\<open>not standard_route\<close> holds of \<^verbatim>\<open>None\<close> and of the empty string\<close>
  "log_dose_string_body self now dose_string =
     (case parse_dose_string dose_string of
        Inl e \<Rightarrow> Inl e
      | Inr (a, un, sub, route_or_verb) \<Rightarrow>
          (case ROUTE_ALIASES route_or_verb of
             None \<Rightarrow> Inl (DoseParsingError (''Unknown route or verb: '' @ route_or_verb))
           | Some standard_route \<Rightarrow>
               if standard_route = []
               then Inl (DoseParsingError (''Unknown route or verb: '' @ route_or_verb))
               else (case convert_amount un a of
                       Inl e \<Rightarrow> Inl e
                     | Inr a' \<Rightarrow>
                         Inr (self\<lparr>entries := entries self @
                           [\<lparr>substance = sub, amount = a', route = standard_route,
                             timestamp = now, unit = ''mg''\<rparr>]\<rparr>))))"

definition exn_text :: "exn \<Rightarrow> string" where
  "exn_text e =
     (case e of
        DoseParsingError m \<Rightarrow> m
      | IndexError \<Rightarrow> ''list index out of range''
      | ZeroDivisionError \<Rightarrow> ''float division by zero'')"

definition log_dose_string :: "User \<Rightarrow> datetime \<Rightarrow> string \<Rightarrow> User \<times> string list" where
  "log_dose_string self now dose_string =
     (case log_dose_string_body self now dose_string of
        Inr self' \<Rightarrow> (self', [])
      | Inl (DoseParsingError m) \<Rightarrow> (self, [''Error parsing dose string: '' @ m])
      | Inl e \<Rightarrow> (self, [''Unexpected error logging dose: '' @ exn_text e]))"

definition unknown_route_warning :: "string \<Rightarrow> string" where
  "unknown_route_warning r =
     ''Warning: Unknown route '' @ [CHR 0x27] @ r @ [CHR 0x27] @
     '', defaulting to '' @ [CHR 0x27] @ ''other'' @ [CHR 0x27]"

definition log_dose :: "User \<Rightarrow> datetime \<Rightarrow> string \<Rightarrow> float \<Rightarrow> string \<Rightarrow> User \<times> string list" where
  "log_dose self now sub a r =
     (let known = (ROUTE_ALIASES r \<noteq> None);
          r' = (if known then r else ''other'');
          standard_route = (case ROUTE_ALIASES r' of None \<Rightarrow> ''other'' | Some sr \<Rightarrow> sr)
      in (self\<lparr>entries := entries self @
            [\<lparr>substance = sub, amount = a, route = standard_route,
              timestamp = now, unit = ''mg''\<rparr>]\<rparr>,
          if known then [] else [unknown_route_warning r]))"

subsection \<open>Query chain\<close>

definition only :: "User \<Rightarrow> string list \<Rightarrow> User" where
  "only self substances =
     self\<lparr>filtered_entries := filter (\<lambda>entry. substance entry \<in> set substances) (entries self)\<rparr>"

definition via :: "User \<Rightarrow> string list \<Rightarrow> User" where
  "via self routes =
     self\<lparr>filtered_entries := filter (\<lambda>entry. route entry \<in> set routes) (filtered_entries self)\<rparr>"

definition slice_from :: "'a list \<Rightarrow> int \<Rightarrow> 'a list" where
  \<comment> \<open>\<^verbatim>\<open>xs[k:]\<close>: a negative start counts from the end, and the start is clamped to the list\<close>
  "slice_from xs k =
     (let n = int (length xs);
          start = (if k < 0 then max (n + k) 0 else min k n)
      in drop (nat start) xs)"

definition last_n :: "User \<Rightarrow> int \<Rightarrow> User" where
  \<comment> \<open>the method \<^verbatim>\<open>last\<close>\<close>
  "last_n self n = self\<lparr>filtered_entries := slice_from (filtered_entries self) (- n)\<rparr>"

definition from_year :: "User \<Rightarrow> int \<Rightarrow> User" where
  "from_year self y =
     self\<lparr>filtered_entries := filter (\<lambda>entry. year (timestamp entry) = y) (entries self)\<rparr>"

definition from_date_range :: "User \<Rightarrow> datetime \<Rightarrow> datetime \<Rightarrow> User" where
  "from_date_range self start_date end_date =
     self\<lparr>filtered_entries :=
       filter (\<lambda>entry. instant start_date \<le> instant (timestamp entry)
                      \<and> instant (timestamp entry) \<le> instant end_date) (entries self)\<rparr>"

datatype filter_call =
  Only "string list" | Via "string list" | Last int | FromYear int
  | FromDateRange datetime datetime

fun apply_call :: "User \<Rightarrow> filter_call \<Rightarrow> User" where
  "apply_call self (Only substances) = only self substances"
| "apply_call self (Via routes) = via self routes"
| "apply_call self (Last n) = last_n self n"
| "apply_call self (FromYear y) = from_year self y"
| "apply_call self (FromDateRange s e) = from_date_range self s e"

definition apply_calls :: "User \<Rightarrow> filter_call list \<Rightarrow> User" where
  \<comment> \<open>a chain \<^verbatim>\<open>self.f1(..).f2(..)...\<close>, leftmost call first\<close>
  "apply_calls self calls = foldl apply_call self calls"

subsection \<open>Aggregates\<close>

definition tally_step ::
  "(string \<rightharpoonup> (string \<rightharpoonup> float)) \<Rightarrow> DoseEntry \<Rightarrow> (string \<rightharpoonup> (string \<rightharpoonup> float))" where
  \<comment> \<open>\<^verbatim>\<open>tally[entry.substance][entry.route] += entry.amount\<close> on the two default dicts\<close>
  "tally_step tally entry =
     (let inner = (case tally (substance entry) of None \<Rightarrow> Map.empty | Some m \<Rightarrow> m);
          cur = (case inner (route entry) of None \<Rightarrow> Finite 0 | Some v \<Rightarrow> v)
      in tally(substance entry \<mapsto> inner(route entry \<mapsto> fadd cur (amount entry))))"

definition tally_each :: "User \<Rightarrow> (string \<rightharpoonup> (string \<rightharpoonup> float))" where
  "tally_each self = foldl tally_step Map.empty (filtered_entries self)"

definition average_dose :: "User \<Rightarrow> exn + float" where
  \<comment> \<open>the length is converted to the nearest double before the division\<close>
  "average_dose self =
     (if filtered_entries self = [] then Inr (Finite 0)
      else fdiv (py_sum (map amount (filtered_entries self)))
             (round64 (of_nat (length (filtered_entries self)))))"

definition latest :: "DoseEntry \<Rightarrow> DoseEntry list \<Rightarrow> DoseEntry" where
  \<comment> \<open>\<^verbatim>\<open>max(.., key=timestamp)\<close> keeps the first of several maximal entries\<close>
  "latest e es =
     foldl (\<lambda>best x. if instant (timestamp best) < instant (timestamp x) then x else best) e es"

definition last_dose_time :: "User \<Rightarrow> datetime \<Rightarrow> int option" where
  \<comment> \<open>the time delta in microseconds\<close>
  "last_dose_time self now =
     (case filtered_entries self of
        [] \<Rightarrow> None
      | e # es \<Rightarrow> Some (instant now - instant (timestamp (latest e es))))"

definition index :: "'a list \<Rightarrow> int \<Rightarrow> exn + 'a" where
  \<comment> \<open>the subscript \<^verbatim>\<open>xs[i]\<close>, which raises outside \<open>-len \<le> i < len\<close>\<close>
  "index xs i =
     (if 0 \<le> i \<and> i < int (length xs) then Inr (xs ! nat i)
      else if i < 0 \<and> - int (length xs) \<le> i then Inr (xs ! nat (int (length xs) + i))
      else Inl IndexError)"

definition median_dose :: "User \<Rightarrow> (exn + float) option" where
  \<comment> \<open>\<open>None\<close> only where \<open>py_sorted\<close> gives no result\<close>
  "median_dose self =
     (if filtered_entries self = [] then Some (Inr (Finite 0))
      else
        (case py_sorted (map amount (filtered_entries self)) of
           None \<Rightarrow> None
         | Some doses \<Rightarrow>
             Some
              (let n = int (length doses);
                   mid = n div 2
               in if n mod 2 \<noteq> 0 then index doses mid
                  else (case index doses (mid - 1) of
                          Inl e \<Rightarrow> Inl e
                        | Inr a \<Rightarrow> (case index doses mid of
                                      Inl e \<Rightarrow> Inl e
                                    | Inr b \<Rightarrow> fdiv (fadd a b) (Finite 2))))))"

definition total_dose :: "User \<Rightarrow> float" where
  "total_dose self = py_sum (map amount (filtered_entries self))"

text \<open>
  The median of a list of amounts as \<open>median_dose\<close> computes it: the amounts sorted, then
  the middle element for an odd count, and for an even count the sum of the two middle
  elements divided by 2, both in float arithmetic.
\<close>

definition sorted_median :: "float list \<Rightarrow> float" where
  "sorted_median xs =
     (let ys = sort_key float_key xs; n = length ys
      in if odd n then ys ! (n div 2)
         else fquot (fadd (ys ! (n div 2 - 1)) (ys ! (n div 2))) (Finite 2))"

subsection \<open>The two grammars, as the specification words them\<close>

text \<open>
  A non-negative decimal numeral is a non-empty run of digits, optionally followed by a
  point and a possibly empty run of digits. A unit is one of the four unit names, a
  substance or route token is a non-empty run of letters and hyphens, tokens are
  separated by non-empty runs of whitespace, and a verb is the marker \<open>@\<close> followed by
  a non-empty run of word characters.
\<close>

definition decimal_numeral :: "string \<Rightarrow> bool" where
  "decimal_numeral s =
     (let ip = takeWhile is_digit s; r = dropWhile is_digit s
      in ip \<noteq> [] \<and> (r = [] \<or> (hd r = CHR ''.'' \<and> list_all is_digit (tl r))))"

definition name_token :: "string \<Rightarrow> bool" where
  "name_token s = (s \<noteq> [] \<and> list_all is_name_char s)"

definition blank :: "string \<Rightarrow> bool" where
  "blank s = (s \<noteq> [] \<and> list_all is_space s)"

definition unit_token :: "string \<Rightarrow> bool" where
  "unit_token s = (s \<in> set [''mg'', ''ug'', ''g'', ''ml''])"

definition verb_token :: "string \<Rightarrow> bool" where
  "verb_token s = (case s of [] \<Rightarrow> False | c # w \<Rightarrow> c = CHR ''@'' \<and> w \<noteq> [] \<and> list_all is_word w)"

subsection \<open>Sample values\<close>

definition sample_now :: datetime where
  "sample_now = \<lparr>year = 2024, instant = 1700000000\<rparr>"

definition sample_entry :: "string \<Rightarrow> float \<Rightarrow> string \<Rightarrow> DoseEntry" where
  "sample_entry sub a r =
     \<lparr>substance = sub, amount = a, route = r, timestamp = sample_now, unit = ''mg''\<rparr>"

definition sample_user :: "DoseEntry list \<Rightarrow> DoseEntry list \<Rightarrow> User" where
  "sample_user es view = \<lparr>name = ''sernyl'', entries = es, filtered_entries = view\<rparr>"

section \<open>Properties\<close>

subsection \<open>Rounding\<close>

lemma bitlen_powi_bounds:
  assumes "0 < x"
  shows "2 powi (bitlen x - 1) \<le> (of_int x :: rat)" and "(of_int x :: rat) < 2 powi (bitlen x)"
proof -
  from bitlen_bounds [OF assms]
  have lo: "2 ^ nat (bitlen x - 1) \<le> x" and hi: "x < 2 ^ nat (bitlen x)" by simp_all
  have b1: "1 \<le> bitlen x"
  proof (rule ccontr)
    assume "\<not> 1 \<le> bitlen x"
    then have "nat (bitlen x) = 0" by simp
    with hi assms show False by simp
  qed
  have "(of_int (2 ^ nat (bitlen x - 1)) :: rat) \<le> of_int x"
    using lo by (simp only: of_int_le_iff)
  then show "2 powi (bitlen x - 1) \<le> (of_int x :: rat)"
    using b1 by (simp add: power_int_def)
  have "(of_int x :: rat) < of_int (2 ^ nat (bitlen x))"
    using hi by (simp only: of_int_less_iff)
  then show "(of_int x :: rat) < 2 powi (bitlen x)"
    using b1 by (simp add: power_int_def)
qed

text \<open>The exponent computed from the bit lengths is the binary exponent of the value.\<close>

lemma ilog2_bounds:
  assumes "0 < q"
  shows "2 powi (ilog2 q) \<le> q" and "q < 2 powi (ilog2 q + 1)"
proof -
  obtain n d where qd: "quotient_of q = (n, d)" by (cases "quotient_of q")
  have d: "0 < d" using qd by (rule quotient_of_denom_pos)
  have q: "q = of_int n / of_int d" using qd by (rule quotient_of_div)
  have n: "0 < n"
    using assms d by (simp add: q zero_less_divide_iff)
  define k where "k = bitlen n - bitlen d"
  note nb = bitlen_powi_bounds [OF n] and db = bitlen_powi_bounds [OF d]
  have dpos: "(0::rat) < of_int d" using d by simp
  have "q < 2 powi (bitlen n) / 2 powi (bitlen d - 1)"
    unfolding q using nb(2) db(1) n dpos
    by (intro frac_less) simp_all
  also have "\<dots> = 2 powi (k + 1)"
    by (simp add: k_def power_int_diff [symmetric] algebra_simps)
  finally have hi: "q < 2 powi (k + 1)" .
  have "2 powi (bitlen n - 1) / 2 powi (bitlen d) < q"
    unfolding q using nb(1) db(2) dpos
    by (intro frac_less2) simp_all
  moreover have "2 powi (bitlen n - 1) / 2 powi (bitlen d) = (2::rat) powi (k - 1)"
    by (simp add: k_def power_int_diff [symmetric] algebra_simps)
  ultimately have lo: "2 powi (k - 1) < q" by simp
  have il: "ilog2 q = (if 2 powi k \<le> q then k else k - 1)"
    by (simp add: ilog2_def qd k_def Let_def)
  show "2 powi (ilog2 q) \<le> q"
    using lo by (simp add: il)
  show "q < 2 powi (ilog2 q + 1)"
    using hi by (simp add: il)
qed

lemma ilog2_unique:
  assumes "2 powi k \<le> q" and "q < 2 powi (k + 1)"
  shows "ilog2 q = k"
proof -
  have "(0::rat) < 2 powi k" by simp
  then have pos: "0 < q"
    using assms(1) by (rule less_le_trans)
  note b = ilog2_bounds [OF pos]
  have "\<not> ilog2 q + 1 \<le> k"
  proof
    assume "ilog2 q + 1 \<le> k"
    then have "(2::rat) powi (ilog2 q + 1) \<le> 2 powi k"
      by (intro power_int_increasing) simp_all
    with b(2) assms(1) show False by simp
  qed
  moreover have "\<not> k + 1 \<le> ilog2 q"
  proof
    assume "k + 1 \<le> ilog2 q"
    then have "(2::rat) powi (k + 1) \<le> 2 powi (ilog2 q)"
      by (intro power_int_increasing) simp_all
    with b(1) assms(2) show False by simp
  qed
  ultimately show ?thesis by simp
qed

lemma round_half_even_eqI:
  assumes "of_int m - 1 / 2 < x" and "x < of_int m + 1 / 2"
  shows "round_half_even x = m"
proof (cases "of_int m \<le> x")
  case True
  then have "\<lfloor>x\<rfloor> = m"
    using assms(2) by (intro floor_unique) simp_all
  then show ?thesis
    using assms(2) by (simp add: round_half_even_def Let_def)
next
  case False
  then have f: "\<lfloor>x\<rfloor> = m - 1"
    using assms(1) by (intro floor_unique) simp_all
  have "1 / 2 < x - of_int (m - 1)" and "\<not> x - of_int (m - 1) < 1 / 2"
    using assms(1) by simp_all
  then show ?thesis
    by (simp add: round_half_even_def Let_def f)
qed

lemma round_half_even_tie:
  assumes "x = of_int f + 1 / 2"
  shows "round_half_even x = (if even f then f else f + 1)"
proof -
  have "\<lfloor>x\<rfloor> = f"
    by (intro floor_unique) (simp_all add: assms)
  then show ?thesis
    by (simp add: round_half_even_def Let_def assms)
qed

lemma round_half_even_nonneg: "0 \<le> x \<Longrightarrow> 0 \<le> round_half_even x"
  by (auto simp: round_half_even_def Let_def)

text \<open>
  A positive value of binary exponent \<open>k\<close> whose scaled significand rounds to \<open>m\<close> is
  rounded to \<open>m\<close> times the spacing of the doubles at that exponent.
\<close>

lemma round64_roundedI:
  assumes "2 powi k \<le> q" and "q < 2 powi (k + 1)"
    and "round_half_even (q / 2 powi (max (k - 52) (- 1074))) = m"
    and "of_int m * 2 powi (max (k - 52) (- 1074)) < (2::rat) powi 1024"
  shows "round64 q = Finite (of_int m * 2 powi (max (k - 52) (- 1074)))"
proof -
  have "(0::rat) < 2 powi k" by simp
  then have pos: "0 < q"
    using assms(1) by (rule less_le_trans)
  have k: "ilog2 q = k"
    using assms(1,2) by (rule ilog2_unique)
  show ?thesis
    using pos assms(4) by (simp add: round64_def Let_def k assms(3))
qed

lemma round64_finiteI:
  assumes "2 powi k \<le> q" and "q < 2 powi (k + 1)"
    and "of_int m - 1 / 2 < q / 2 powi (max (k - 52) (- 1074))"
    and "q / 2 powi (max (k - 52) (- 1074)) < of_int m + 1 / 2"
    and "of_int m * 2 powi (max (k - 52) (- 1074)) < (2::rat) powi 1024"
  shows "round64 q = Finite (of_int m * 2 powi (max (k - 52) (- 1074)))"
  using assms(1,2) round_half_even_eqI [OF assms(3,4)] assms(5) by (rule round64_roundedI)

lemma round64_nonneg_cases:
  assumes "0 \<le> q"
  shows "round64 q = PInf \<or> (\<exists>v. round64 q = Finite v \<and> 0 \<le> v)"
proof (cases "q = 0")
  case True
  then show ?thesis by (simp add: round64_def)
next
  case False
  with assms have pos: "0 < q" by simp
  define e where "e = max (ilog2 q - 52) (- 1074)"
  have "0 \<le> q / 2 powi e"
    using pos by simp
  then have "0 \<le> round_half_even (q / 2 powi e)"
    by (rule round_half_even_nonneg)
  then have "(0::rat) \<le> of_int (round_half_even (q / 2 powi e)) * 2 powi e"
    by simp
  then show ?thesis
    using pos by (simp add: round64_def Let_def flip: e_def)
qed

lemma round64_nonneg: "0 \<le> q \<Longrightarrow> fle (Finite 0) (round64 q)"
  using round64_nonneg_cases [of q] by (auto simp: fle_def float_key_def)

text \<open>A value of magnitude \<open>2 ^ 1024\<close> or more overflows.\<close>

lemma round_half_even_ge_floor: "\<lfloor>x\<rfloor> \<le> round_half_even x"
  by (simp add: round_half_even_def Let_def)

lemma round64_overflow:
  assumes "2 powi 1024 \<le> q"
  shows "round64 q = PInf"
proof -
  have "(0::rat) < 2 powi 1024" by simp
  then have pos: "0 < q"
    using assms by (rule less_le_trans)
  define k where "k = ilog2 q"
  note b = ilog2_bounds [OF pos, folded k_def]
  have k: "1024 \<le> k"
  proof (rule ccontr)
    assume "\<not> 1024 \<le> k"
    then have "k + 1 \<le> 1024" by simp
    then have "(2::rat) powi (k + 1) \<le> 2 powi 1024"
      by (intro power_int_increasing) simp_all
    with b(2) assms show False by simp
  qed
  then have e: "max (k - 52) (- 1074) = k - 52" by simp
  have "(2::rat) powi 52 = 2 powi k / 2 powi (k - 52)"
    by (simp add: power_int_diff [symmetric])
  also have "\<dots> \<le> q / 2 powi (k - 52)"
    using b(1) by (intro divide_right_mono) simp_all
  finally have "(of_int (2 ^ 52) :: rat) \<le> q / 2 powi (k - 52)"
    by simp
  then have "2 ^ 52 \<le> \<lfloor>q / 2 powi (k - 52)\<rfloor>"
    by (simp only: le_floor_iff)
  then have "2 ^ 52 \<le> round_half_even (q / 2 powi (k - 52))"
    using round_half_even_ge_floor [of "q / 2 powi (k - 52)"] by linarith
  then have "(of_int (2 ^ 52) :: rat) \<le> of_int (round_half_even (q / 2 powi (k - 52)))"
    by (simp only: of_int_le_iff)
  then have "(2::rat) powi 52 * 2 powi (k - 52)
      \<le> of_int (round_half_even (q / 2 powi (k - 52))) * 2 powi (k - 52)"
    by (intro mult_right_mono) simp_all
  moreover have "(2::rat) powi 52 * 2 powi (k - 52) = 2 powi (52 + (k - 52))"
    by (rule power_int_add [symmetric]) simp
  moreover have "52 + (k - 52) = k"
    by simp
  moreover have "(2::rat) powi 1024 \<le> 2 powi k"
    using k by (intro power_int_increasing) simp_all
  ultimately have "(2::rat) powi 1024
      \<le> of_int (round_half_even (q / 2 powi (k - 52))) * 2 powi (k - 52)"
    by (simp only:)
  then show ?thesis
    using pos by (simp add: round64_def Let_def e flip: k_def)
qed

subsection \<open>Sample roundings\<close>

text \<open>
  The doubles nearest to some decimal values, and some sums, products and quotients of
  doubles, each checked against the bounds of its binary exponent.
\<close>

lemma round64_4_10: "round64 (4 / 10) = Finite (3602879701896397 / 9007199254740992)"
  using round64_finiteI [of "- 2" "4 / 10" 7205759403792794] by simp

lemma round64_201_100: "round64 (201 / 100) = Finite (1131529406376837 / 562949953421312)"
  using round64_finiteI [of 1 "201 / 100" 4526117625507348] by simp

lemma round64_1_10: "round64 (1 / 10) = Finite (3602879701896397 / 36028797018963968)"
  using round64_finiteI [of "- 4" "1 / 10" 7205759403792794] by simp

lemma round64_2_10: "round64 (2 / 10) = Finite (3602879701896397 / 18014398509481984)"
  using round64_finiteI [of "- 3" "2 / 10" 7205759403792794] by simp

lemma round64_30: "round64 30 = Finite 30"
  using round64_finiteI [of 4 "30" 8444249301319680] by simp

lemma round64_15: "round64 15 = Finite 15"
  using round64_finiteI [of 3 "15" 8444249301319680] by simp

lemma round64_20: "round64 20 = Finite 20"
  using round64_finiteI [of 4 "20" 5629499534213120] by simp

lemma quot_1000_sample: "fquot (Finite (3602879701896397 / 9007199254740992)) (Finite 1000) = Finite (7378697629483821 / 18446744073709551616)"
  using round64_finiteI [of "- 12" "3602879701896397 / 9007199254740992 / 1000" 7378697629483821] by simp

lemma mul_1000_sample: "fmul (Finite (1131529406376837 / 562949953421312)) (Finite 1000) = Finite (8840073487319039 / 4398046511104)"
  using round64_finiteI [of 10 "1131529406376837 / 562949953421312 * 1000" 8840073487319039] by simp

lemma add_sample: "fadd (Finite (3602879701896397 / 36028797018963968)) (Finite (3602879701896397 / 18014398509481984)) = Finite (1351079888211149 / 4503599627370496)"
proof -
  have "round_half_even ((3602879701896397 / 36028797018963968 + 3602879701896397 / 18014398509481984) / 2 powi (- 54)) = 5404319552844596"
    using round_half_even_tie [of "(3602879701896397 / 36028797018963968 + 3602879701896397 / 18014398509481984) / 2 powi (- 54)" 5404319552844595] by simp
  then show ?thesis
    using round64_roundedI [of "- 2" "3602879701896397 / 36028797018963968 + 3602879701896397 / 18014398509481984" 5404319552844596] by simp
qed

lemma half_sample: "fquot (Finite (1351079888211149 / 4503599627370496)) (Finite 2) = Finite (1351079888211149 / 9007199254740992)"
  using round64_finiteI [of "- 3" "1351079888211149 / 4503599627370496 / 2" 5404319552844596] by simp

lemma round64_tie_to_even: "round64 9007199254740993 = Finite 9007199254740992"
proof -
  have "round_half_even (9007199254740993 / 2 powi 1) = 4503599627370496"
    using round_half_even_tie [of "9007199254740993 / 2 powi 1" 4503599627370496] by simp
  then show ?thesis
    using round64_roundedI [of 53 "9007199254740993" 4503599627370496] by simp
qed

subsection \<open>The registry\<close>


lemma canonical_route_nonempty: "ROUTE_ALIASES a = Some c \<Longrightarrow> c \<noteq> []"
  unfolding ROUTE_ALIASES_def
  by (drule map_of_SomeD) (auto simp: alias_pairs_def ADMINISTRATION_METHODS_def)

text \<open>Every alias has one owner: the canonical route under which the table lists it.\<close>

lemma alias_keys_distinct: "distinct (map fst alias_pairs)"
  by (simp add: alias_pairs_def ADMINISTRATION_METHODS_def)

lemma alias_owner:
  assumes "(canonical, aliases) \<in> set ADMINISTRATION_METHODS" and "a \<in> set aliases"
  shows "ROUTE_ALIASES a = Some canonical"
proof -
  have "(a, canonical) \<in> set (rev alias_pairs)"
    using assms by (force simp: alias_pairs_def)
  moreover have "distinct (map fst (rev alias_pairs))"
    using alias_keys_distinct by (simp flip: rev_map)
  ultimately show ?thesis
    unfolding ROUTE_ALIASES_def by (intro map_of_is_SomeI)
qed

lemma alias_owned:
  assumes "ROUTE_ALIASES a = Some canonical"
  shows "\<exists>aliases. (canonical, aliases) \<in> set ADMINISTRATION_METHODS \<and> a \<in> set aliases"
proof -
  have "(a, canonical) \<in> set alias_pairs"
    using assms map_of_SomeD [of "rev alias_pairs" a canonical] by (simp add: ROUTE_ALIASES_def)
  then show ?thesis
    by (auto simp: alias_pairs_def)
qed


subsection \<open>The query chain\<close>

lemma entries_apply_call: "entries (apply_call self c) = entries self"
  by (cases c) (simp_all add: only_def via_def last_n_def from_year_def from_date_range_def)

lemma entries_apply_calls: "entries (apply_calls self calls) = entries self"
  unfolding apply_calls_def
  by (induction calls arbitrary: self) (simp_all add: entries_apply_call)

text \<open>
  C4. Whatever the history and the working view before the call, the chain
  \<open>only(S).via(R)\<close> leaves as working view the entries of the full history whose
  substance is in \<open>S\<close> and whose route is in \<open>R\<close>, in history order, and does not
  touch the history.
\<close>

theorem only_via_conjunction:
  "filtered_entries (via (only self S) R) =
     filter (\<lambda>e. substance e \<in> set S \<and> route e \<in> set R) (entries self)
   \<and> entries (via (only self S) R) = entries self
   \<and> apply_calls self [Only S, Via R] = via (only self S) R"
  by (simp add: only_def via_def apply_calls_def conj_commute)

text \<open>
  C5. After any chain of filter calls, \<open>from_year(y)\<close> sets the working view to the
  entries of the full history whose timestamp lies in year \<open>y\<close>, in history order:
  the narrowing done before is discarded, and the history is the one before the chain.
\<close>

theorem from_year_resets_view:
  "filtered_entries (from_year (apply_calls self calls) y) =
     filter (\<lambda>e. year (timestamp e) = y) (entries self)
   \<and> entries (from_year (apply_calls self calls) y) = entries self"
  by (simp add: from_year_def entries_apply_calls)

text \<open>
  The slice \<^verbatim>\<open>[-n:]\<close> is the tail of length \<open>n\<close> for a positive \<open>n\<close> (the whole view when
  \<open>n\<close> exceeds its length), and the history is never touched.
\<close>

lemma last_n_positive:
  "0 < n \<Longrightarrow> filtered_entries (last_n self n) =
     drop (length (filtered_entries self) - nat n) (filtered_entries self)"
  by (simp add: last_n_def slice_from_def Let_def max_def nat_diff_distrib')

lemma last_n_history: "entries (last_n self n) = entries self"
  by (simp add: last_n_def)

text \<open>
  C7. For \<open>n = 0\<close> the slice \<^verbatim>\<open>[-0:]\<close> is \<^verbatim>\<open>[0:]\<close>: \<open>last(0)\<close> on a view of one entry
  keeps that entry instead of leaving the empty view.
\<close>

theorem last_n_zero_keeps_whole_view:
  "filtered_entries
     (last_n (sample_user [sample_entry ''caffeine'' (Finite 100) ''oral'']
                [sample_entry ''caffeine'' (Finite 100) ''oral'']) 0)
   = [sample_entry ''caffeine'' (Finite 100) ''oral'']"
  by (simp add: last_n_def slice_from_def sample_user_def)

subsection \<open>Aggregates\<close>

text \<open>
  C8. On an empty working view the tally is the empty mapping, the average, the median
  and the total are 0, no reader raises, and the time since the last dose is absent.
\<close>

theorem aggregates_on_empty_view:
  "filtered_entries self = [] \<Longrightarrow>
     tally_each self = Map.empty \<and> average_dose self = Inr (Finite 0)
     \<and> median_dose self = Some (Inr (Finite 0))
     \<and> total_dose self = Finite 0 \<and> last_dose_time self now = None"
  by (simp add: tally_each_def average_dose_def median_dose_def total_dose_def py_sum_def
      last_dose_time_def)

theorem aggregates_on_empty_view_witness:
  "filtered_entries (sample_user [sample_entry ''caffeine'' (Finite 100) ''oral''] []) = []
   \<and> tally_each (sample_user [sample_entry ''caffeine'' (Finite 100) ''oral''] []) = Map.empty
   \<and> average_dose (sample_user [sample_entry ''caffeine'' (Finite 100) ''oral''] []) = Inr (Finite 0)
   \<and> median_dose (sample_user [sample_entry ''caffeine'' (Finite 100) ''oral''] [])
       = Some (Inr (Finite 0))
   \<and> total_dose (sample_user [sample_entry ''caffeine'' (Finite 100) ''oral''] []) = Finite 0
   \<and> last_dose_time (sample_user [sample_entry ''caffeine'' (Finite 100) ''oral''] []) sample_now
       = None"
  using aggregates_on_empty_view
    [of "sample_user [sample_entry ''caffeine'' (Finite 100) ''oral''] []" sample_now]
  by (simp add: sample_user_def)

subsection \<open>Character classes and runs\<close>

lemma digit_not_space: "is_digit c \<Longrightarrow> \<not> is_space c"
  by (auto simp: is_digit_def is_space_def Let_def)

lemma name_char_not_space: "is_name_char c \<Longrightarrow> \<not> is_space c"
  by (auto simp: is_name_char_def is_space_def Let_def)

lemma space_not_name_char: "is_space c \<Longrightarrow> \<not> is_name_char c"
  by (auto simp: is_name_char_def is_space_def Let_def)


lemma space_not_digit: "is_space c \<Longrightarrow> \<not> is_digit c"
  by (auto simp: is_digit_def is_space_def Let_def)

lemma point_not_digit: "\<not> is_digit (CHR ''.'')"
  by (simp add: is_digit_def)

lemma at_not_digit: "\<not> is_digit (CHR ''@'')"
  by (simp add: is_digit_def)


lemma run_split:
  assumes "list_all P t" and "r = [] \<or> \<not> P (hd r)"
  shows "takeWhile P (t @ r) = t" and "dropWhile P (t @ r) = r"
proof -
  have all: "\<And>x. x \<in> set t \<Longrightarrow> P x"
    using assms(1) by (simp add: list_all_iff)
  have "takeWhile P r = []" and "dropWhile P r = r"
    using assms(2) by (cases r; simp)+
  then show "takeWhile P (t @ r) = t" and "dropWhile P (t @ r) = r"
    using all by (simp_all add: takeWhile_append2 dropWhile_append2)
qed

lemma many1_run:
  assumes "t \<noteq> []" and "list_all P t" and "r = [] \<or> \<not> P (hd r)"
  shows "many1 P (t @ r) = Some (t, r)"
  using assms(1) run_split [OF assms(2,3)] by (simp add: many1_def)

lemma starts_outside:
  assumes "t \<noteq> []" and "list_all Q t" and "\<And>c. Q c \<Longrightarrow> \<not> P c"
  shows "t @ r = [] \<or> \<not> P (hd (t @ r))"
  using assms by (cases t) simp_all

lemma strip_core:
  assumes "list_all is_space pre" "list_all is_space post" "body \<noteq> []"
    "\<not> is_space (hd body)" "\<not> is_space (last body)"
  shows "strip (pre @ body @ post) = body"
proof -
  have "dropWhile is_space (pre @ body @ post) = body @ post"
    using assms(1,3,4) by (intro run_split) simp_all
  moreover have "dropWhile is_space (rev post @ rev body) = rev body"
    using assms(2,3,5) by (intro run_split) (simp_all add: hd_rev)
  ultimately show ?thesis
    by (simp add: strip_def)
qed

subsection \<open>The patterns accept the grammars\<close>

lemma amount_group_digits:
  assumes "ip \<noteq> []" and "list_all is_digit ip"
    and "r = [] \<or> (\<not> is_digit (hd r) \<and> hd r \<noteq> CHR ''.'')"
  shows "amount_group (ip @ r) = Some (ip, r)"
proof -
  have "many1 is_digit (ip @ r) = Some (ip, r)"
    using assms by (intro many1_run) blast+
  then show ?thesis
    using assms(3) by (cases r) (simp_all add: amount_group_def)
qed

lemma amount_group_point:
  assumes "ip \<noteq> []" and "list_all is_digit ip" and "list_all is_digit fp"
    and "r = [] \<or> \<not> is_digit (hd r)"
  shows "amount_group (ip @ CHR ''.'' # fp @ r) = Some (ip @ CHR ''.'' # fp, r)"
proof -
  have "many1 is_digit (ip @ (CHR ''.'' # fp @ r)) = Some (ip, CHR ''.'' # fp @ r)"
    using assms(1,2) by (intro many1_run) (simp_all add: point_not_digit)
  moreover have "takeWhile is_digit (fp @ r) = fp" and "dropWhile is_digit (fp @ r) = r"
    using run_split [OF assms(3,4)] by blast+
  ultimately show ?thesis
    by (simp add: amount_group_def)
qed

lemma decimal_numeral_cases:
  assumes "decimal_numeral amt"
  obtains "amt \<noteq> []" "list_all is_digit amt"
  | ip fp where "amt = ip @ CHR ''.'' # fp" "ip \<noteq> []" "list_all is_digit ip" "list_all is_digit fp"
proof -
  define ip where "ip = takeWhile is_digit amt"
  define rest where "rest = dropWhile is_digit amt"
  have split: "amt = ip @ rest"
    by (simp add: ip_def rest_def)
  have ip: "ip \<noteq> []"
    using assms by (simp add: decimal_numeral_def Let_def ip_def)
  have ip_digits: "list_all is_digit ip"
    unfolding ip_def list_all_iff by (blast dest: set_takeWhileD)
  have rest: "rest = [] \<or> (hd rest = CHR ''.'' \<and> list_all is_digit (tl rest))"
    using assms by (simp add: decimal_numeral_def Let_def rest_def)
  show thesis
  proof (cases rest)
    case Nil
    with split ip ip_digits that(1) show thesis by simp
  next
    case (Cons c fp)
    with rest have "c = CHR ''.''" and "list_all is_digit fp" by simp_all
    with split Cons ip ip_digits that(2) show thesis by blast
  qed
qed

lemma amount_group_run:
  assumes "decimal_numeral amt" and "r = [] \<or> (\<not> is_digit (hd r) \<and> hd r \<noteq> CHR ''.'')"
  shows "amount_group (amt @ r) = Some (amt, r)"
  using assms(1)
proof (cases rule: decimal_numeral_cases)
  case 1
  then show ?thesis using assms(2) by (rule amount_group_digits)
next
  case (2 ip fp)
  from assms(2) have "r = [] \<or> \<not> is_digit (hd r)" by blast
  with 2 show ?thesis
    using amount_group_point [of ip fp r] by simp
qed

lemma unit_group_run: "unit_token un \<Longrightarrow> unit_group (un @ r) = Some (un, r)"
  by (auto simp: unit_token_def unit_group_def)

lemma unit_starts_outside:
  "unit_token un \<Longrightarrow> un @ r = [] \<or> (\<not> is_digit (hd (un @ r)) \<and> hd (un @ r) \<noteq> CHR ''.'')"
  by (auto simp: unit_token_def is_digit_def)

lemma decimal_numeral_hd: "decimal_numeral amt \<Longrightarrow> amt \<noteq> [] \<and> is_digit (hd amt)"
  by (cases amt) (auto simp: decimal_numeral_def Let_def split: if_splits)

subsection \<open>The patterns accept nothing else\<close>

text \<open>
  A text matched by a pattern is built as the grammar says, and the groups are its tokens.
\<close>

lemma many1_sound:
  assumes "many1 P s = Some (t, r)"
  shows "s = t @ r" and "t \<noteq> []" and "list_all P t" and "r = [] \<or> \<not> P (hd r)"
proof -
  from assms have t: "t = takeWhile P s" and r: "r = dropWhile P s" and ne: "takeWhile P s \<noteq> []"
    by (simp_all add: many1_def split: if_splits)
  show "s = t @ r" by (simp add: t r)
  show "t \<noteq> []" using ne by (simp add: t)
  show "list_all P t" unfolding t list_all_iff by (blast dest: set_takeWhileD)
  show "r = [] \<or> \<not> P (hd r)" unfolding r using hd_dropWhile [of P s] by blast
qed

lemma decimal_numeral_digits:
  assumes "ip \<noteq> []" and "list_all is_digit ip"
  shows "decimal_numeral ip"
proof -
  have tw: "takeWhile is_digit ip = ip" and dw: "dropWhile is_digit ip = []"
    using assms(2) by (simp_all add: list_all_iff)
  show ?thesis
    using assms(1) by (simp add: decimal_numeral_def tw dw)
qed

lemma decimal_numeral_point:
  assumes "ip \<noteq> []" and "list_all is_digit ip" and "list_all is_digit fp"
  shows "decimal_numeral (ip @ CHR ''.'' # fp)"
proof -
  have "takeWhile is_digit (ip @ CHR ''.'' # fp) = ip"
    and "dropWhile is_digit (ip @ CHR ''.'' # fp) = CHR ''.'' # fp"
    using run_split [OF assms(2), of "CHR ''.'' # fp"] by (simp_all add: point_not_digit)
  then show ?thesis
    using assms(1,3) by (simp add: decimal_numeral_def)
qed

lemma amount_group_sound:
  assumes "amount_group s = Some (amt, r)"
  shows "s = amt @ r \<and> decimal_numeral amt"
proof -
  from assms obtain ip r0 where m: "many1 is_digit s = Some (ip, r0)"
    by (auto simp: amount_group_def split: option.splits)
  note ip = many1_sound [OF m]
  show ?thesis
  proof (cases r0)
    case Nil
    with assms m ip show ?thesis
      by (simp add: amount_group_def decimal_numeral_digits)
  next
    case (Cons c r')
    show ?thesis
    proof (cases "c = CHR ''.''")
      case True
      have fp: "list_all is_digit (takeWhile is_digit r')"
        unfolding list_all_iff by (blast dest: set_takeWhileD)
      from assms m Cons True have "amt = ip @ CHR ''.'' # takeWhile is_digit r'"
        and "r = dropWhile is_digit r'"
        by (simp_all add: amount_group_def)
      with ip(1-3) Cons True fp show ?thesis
        by (simp add: decimal_numeral_point)
    next
      case False
      with assms m Cons ip show ?thesis
        by (simp add: amount_group_def decimal_numeral_digits)
    qed
  qed
qed

lemma take_is: "take n s = t \<Longrightarrow> s = t @ drop n s"
  by (metis append_take_drop_id)

lemma unit_group_sound:
  assumes "unit_group s = Some (un, r)"
  shows "s = un @ r \<and> unit_token un"
  using assms
  by (auto simp: unit_group_def unit_token_def split: if_splits dest: take_is)

lemma verb_group_sound:
  assumes "verb_group s = Some (verb, r)"
  shows "s = verb @ r \<and> verb_token verb"
proof -
  from assms obtain w r0 where s: "s = CHR ''@'' # r0" and m: "many1 is_word r0 = Some (w, r)"
    and verb: "verb = CHR ''@'' # w"
    by (auto simp: verb_group_def split: list.splits if_splits option.splits)
  from many1_sound [OF m] s verb show ?thesis
    by (simp add: verb_token_def)
qed

lemma match_standard_sound:
  assumes "match_standard s = Some (amt, un, sub, rt)"
  shows "\<exists>w1 w2 nl. s = amt @ un @ w1 @ sub @ w2 @ rt @ nl \<and> decimal_numeral amt
    \<and> unit_token un \<and> blank w1 \<and> name_token sub \<and> blank w2 \<and> name_token rt \<and> at_end nl"
proof -
  from assms obtain r1 r2 w1 r3 r4 w2 r5 r6 where
    1: "amount_group s = Some (amt, r1)" and 2: "unit_group r1 = Some (un, r2)"
    and 3: "many1 is_space r2 = Some (w1, r3)" and 4: "many1 is_name_char r3 = Some (sub, r4)"
    and 5: "many1 is_space r4 = Some (w2, r5)" and 6: "many1 is_name_char r5 = Some (rt, r6)"
    and 7: "at_end r6"
    by (auto simp: match_standard_def split: option.splits if_splits)
  have "s = amt @ un @ w1 @ sub @ w2 @ rt @ r6"
    using amount_group_sound [OF 1] unit_group_sound [OF 2] many1_sound(1) [OF 3]
      many1_sound(1) [OF 4] many1_sound(1) [OF 5] many1_sound(1) [OF 6] by simp
  moreover have "blank w1" "name_token sub" "blank w2" "name_token rt"
    using many1_sound(2,3) [OF 3] many1_sound(2,3) [OF 4] many1_sound(2,3) [OF 5]
      many1_sound(2,3) [OF 6] by (simp_all add: blank_def name_token_def)
  ultimately show ?thesis
    using amount_group_sound [OF 1] unit_group_sound [OF 2] 7 by blast
qed

lemma match_verb_sound:
  assumes "match_verb s = Some (verb, amt, un, sub)"
  shows "\<exists>w0 w1 nl. s = verb @ w0 @ amt @ un @ w1 @ sub @ nl \<and> verb_token verb \<and> blank w0
    \<and> decimal_numeral amt \<and> unit_token un \<and> blank w1 \<and> name_token sub \<and> at_end nl"
proof -
  from assms obtain r1 w0 r2 r3 r4 w1 r5 r6 where
    1: "verb_group s = Some (verb, r1)" and 2: "many1 is_space r1 = Some (w0, r2)"
    and 3: "amount_group r2 = Some (amt, r3)" and 4: "unit_group r3 = Some (un, r4)"
    and 5: "many1 is_space r4 = Some (w1, r5)" and 6: "many1 is_name_char r5 = Some (sub, r6)"
    and 7: "at_end r6"
    by (auto simp: match_verb_def split: option.splits if_splits)
  have "s = verb @ w0 @ amt @ un @ w1 @ sub @ r6"
    using verb_group_sound [OF 1] many1_sound(1) [OF 2] amount_group_sound [OF 3]
      unit_group_sound [OF 4] many1_sound(1) [OF 5] many1_sound(1) [OF 6] by simp
  moreover have "blank w0" "blank w1" "name_token sub"
    using many1_sound(2,3) [OF 2] many1_sound(2,3) [OF 5] many1_sound(2,3) [OF 6]
    by (simp_all add: blank_def name_token_def)
  ultimately show ?thesis
    using verb_group_sound [OF 1] amount_group_sound [OF 3] unit_group_sound [OF 4] 7 by blast
qed

subsection \<open>The value of a numeral\<close>

lemma decimal_value_digits:
  assumes "list_all is_digit ip"
  shows "decimal_value ip = of_nat (digits_val ip)"
proof -
  have "\<And>c. c \<in> set ip \<Longrightarrow> c \<noteq> CHR ''.''"
    using assms point_not_digit by (auto simp: list_all_iff)
  then have tw: "takeWhile (\<lambda>c. c \<noteq> CHR ''.'') ip = ip"
    and dw: "dropWhile (\<lambda>c. c \<noteq> CHR ''.'') ip = []"
    by simp_all
  show ?thesis
    by (simp add: decimal_value_def tw dw digits_val_def)
qed

lemma decimal_value_point:
  assumes "list_all is_digit ip"
  shows "decimal_value (ip @ CHR ''.'' # fp) =
     of_nat (digits_val ip) + of_nat (digits_val fp) / 10 ^ length fp"
proof -
  have "\<And>c. c \<in> set ip \<Longrightarrow> c \<noteq> CHR ''.''"
    using assms point_not_digit by (auto simp: list_all_iff)
  then have tw: "takeWhile (\<lambda>c. c \<noteq> CHR ''.'') (ip @ CHR ''.'' # fp) = ip"
    and dw: "dropWhile (\<lambda>c. c \<noteq> CHR ''.'') (ip @ CHR ''.'' # fp) = CHR ''.'' # fp"
    by (simp_all add: takeWhile_append2 dropWhile_append2)
  show ?thesis
    by (simp add: decimal_value_def tw dw)
qed

lemma py_float_overflow:
  assumes "list_all is_digit ip" and "2 ^ 1024 \<le> digits_val ip"
  shows "py_float ip = PInf"
proof -
  have "(of_nat (2 ^ 1024) :: rat) \<le> of_nat (digits_val ip)"
    using assms(2) by (simp only: of_nat_le_iff)
  then have "(2::rat) powi 1024 \<le> decimal_value ip"
    by (simp add: decimal_value_digits [OF assms(1)])
  then show ?thesis
    unfolding py_float_def by (rule round64_overflow)
qed

lemma decimal_value_nonneg: "0 \<le> decimal_value s"
  by (simp add: decimal_value_def Let_def)

lemma py_float_nonneg: "fle (Finite 0) (py_float s)"
  unfolding py_float_def using decimal_value_nonneg by (rule round64_nonneg)

lemma float_text_0_4: "py_float ''0.4'' = Finite (3602879701896397 / 9007199254740992)"
proof -
  have "decimal_value ''0.4'' = 4 / 10"
    by (simp add: decimal_value_def digits_val_def digit_val_def)
  then show ?thesis
    unfolding py_float_def by (simp only: round64_4_10)
qed

lemma float_text_2_01: "py_float ''2.01'' = Finite (1131529406376837 / 562949953421312)"
proof -
  have "decimal_value ''2.01'' = 201 / 100"
    by (simp add: decimal_value_def digits_val_def digit_val_def)
  then show ?thesis
    unfolding py_float_def by (simp only: round64_201_100)
qed

lemma float_text_0_1: "py_float ''0.1'' = Finite (3602879701896397 / 36028797018963968)"
proof -
  have "decimal_value ''0.1'' = 1 / 10"
    by (simp add: decimal_value_def digits_val_def digit_val_def)
  then show ?thesis
    unfolding py_float_def by (simp only: round64_1_10)
qed

lemma float_text_0_2: "py_float ''0.2'' = Finite (3602879701896397 / 18014398509481984)"
proof -
  have "decimal_value ''0.2'' = 2 / 10"
    by (simp add: decimal_value_def digits_val_def digit_val_def)
  then show ?thesis
    unfolding py_float_def by (simp only: round64_2_10)
qed


lemma float_text_20: "py_float ''20'' = Finite 20"
proof -
  have "decimal_value ''20'' = 20"
    by (simp add: decimal_value_def digits_val_def digit_val_def)
  then show ?thesis
    unfolding py_float_def by (simp only: round64_20)
qed

text \<open>Lower-casing on every character a substance token can hold.\<close>

lemma lower_name_chars:
  "lower ''ABCDEFGHIJKLMNOPQRSTUVWXYZ-abcdefghijklmnopqrstuvwxyz''
     = ''abcdefghijklmnopqrstuvwxyz-abcdefghijklmnopqrstuvwxyz''"
  by code_simp

lemma sample_lower:
  "lower ''LSD'' = ''lsd''" "lower ''Ketamine'' = ''ketamine''" "lower ''water'' = ''water''"
  "lower ''Adderall'' = ''adderall''" "lower ''MDMA'' = ''mdma''"
  by code_simp+

subsection \<open>Logging from text\<close>

lemma match_standard_grammar:
  assumes "decimal_numeral amt" "unit_token un" "blank w1" "name_token sub" "blank w2"
    "name_token rt"
  shows "match_standard (amt @ un @ w1 @ sub @ w2 @ rt) = Some (amt, un, sub, rt)"
proof -
  have 6: "many1 is_name_char rt = Some (rt, [])"
    using assms(6) many1_run [of rt is_name_char "[]"] by (simp add: name_token_def)
  have 5: "many1 is_space (w2 @ rt) = Some (w2, rt)"
    using assms(5,6) starts_outside [of rt is_name_char is_space "[]"]
    by (intro many1_run) (simp_all add: blank_def name_token_def name_char_not_space)
  have 4: "many1 is_name_char (sub @ w2 @ rt) = Some (sub, w2 @ rt)"
    using assms(4,5) starts_outside [of w2 is_space is_name_char rt]
    by (intro many1_run) (simp_all add: blank_def name_token_def space_not_name_char)
  have 3: "many1 is_space (w1 @ sub @ w2 @ rt) = Some (w1, sub @ w2 @ rt)"
    using assms(3,4) starts_outside [of sub is_name_char is_space "w2 @ rt"]
    by (intro many1_run) (simp_all add: blank_def name_token_def name_char_not_space)
  have 2: "unit_group (un @ w1 @ sub @ w2 @ rt) = Some (un, w1 @ sub @ w2 @ rt)"
    using assms(2) by (rule unit_group_run)
  have 1: "amount_group (amt @ un @ w1 @ sub @ w2 @ rt) = Some (amt, un @ w1 @ sub @ w2 @ rt)"
    using assms(1) unit_starts_outside [OF assms(2)] by (rule amount_group_run)
  show ?thesis
    by (simp add: match_standard_def 1 2 3 4 5 6 at_end_def)
qed


lemma name_token_last: "name_token rt \<Longrightarrow> rt \<noteq> [] \<and> \<not> is_space (last rt)"
  by (simp add: name_token_def list_all_iff name_char_not_space)

text \<open>
  C1. A text of the standard grammar (amount, unit, substance and route, the tokens
  separated by whitespace, with optional whitespace around the text) whose route token
  is listed as an alias of a canonical route is logged: exactly one entry is appended to
  the history, nothing is printed, the entry's substance is the substance token in lower
  case, its route is the canonical route that lists the alias, and its amount is the
  parsed amount divided by 1000 for \<open>ug\<close>, multiplied by 1000 for \<open>g\<close>, unchanged for
  \<open>mg\<close> and \<open>ml\<close>, the parsed amount being the double \<^verbatim>\<open>float(..)\<close> returns and the
  division and the multiplication being those of floats.
\<close>

theorem standard_grammar_logged:
  assumes "decimal_numeral amt" and "unit_token un" and "blank w1" and "name_token sub"
    and "blank w2" and "name_token rt"
    and "(canonical, aliases) \<in> set ADMINISTRATION_METHODS" and "rt \<in> set aliases"
    and "list_all is_space pre" and "list_all is_space post"
  shows "log_dose_string self now (pre @ amt @ un @ w1 @ sub @ w2 @ rt @ post) =
     (self\<lparr>entries := entries self @
        [\<lparr>substance = lower sub,
          amount = (if un = ''ug'' then fquot (py_float amt) (Finite 1000)
                    else if un = ''g'' then fmul (py_float amt) (Finite 1000)
                    else py_float amt),
          route = canonical, timestamp = now, unit = ''mg''\<rparr>]\<rparr>,
      [])"
proof -
  have owner: "ROUTE_ALIASES rt = Some canonical"
    using assms(7,8) by (rule alias_owner)
  define body where "body = amt @ un @ w1 @ sub @ w2 @ rt"
  have "body \<noteq> []" and "\<not> is_space (hd body)"
    using decimal_numeral_hd [OF assms(1)] by (simp_all add: body_def digit_not_space)
  moreover have "\<not> is_space (last body)"
    using name_token_last [OF assms(6)] by (simp add: body_def)
  ultimately have "strip (pre @ body @ post) = body"
    using assms(9,10) by (intro strip_core)
  then have "strip (pre @ amt @ un @ w1 @ sub @ w2 @ rt @ post) = body"
    by (simp add: body_def)
  moreover have "match_standard body = Some (amt, un, sub, rt)"
    unfolding body_def using assms(1-6) by (rule match_standard_grammar)
  ultimately have "parse_dose_string (pre @ amt @ un @ w1 @ sub @ w2 @ rt @ post) =
      Inr (py_float amt, un, lower sub, rt)"
    using owner by (simp add: parse_dose_string_def)
  then show ?thesis
    using owner canonical_route_nonempty [OF owner]
    by (simp add: log_dose_string_def log_dose_string_body_def convert_amount_def fdiv_def)
qed

theorem standard_grammar_logged_witness:
  "decimal_numeral ''0.4'' \<and> unit_token ''ug'' \<and> blank '' '' \<and> name_token ''LSD''
   \<and> name_token ''sublingual''
   \<and> (''sublingual'', [''sublingual'', ''dissolved'']) \<in> set ADMINISTRATION_METHODS
   \<and> log_dose_string (sample_user [] []) sample_now ''0.4ug LSD sublingual'' =
       (sample_user
          [sample_entry ''lsd'' (Finite (7378697629483821 / 18446744073709551616)) ''sublingual'']
          [], [])
   \<and> decimal_numeral ''2.01'' \<and> unit_token ''g'' \<and> blank ''  '' \<and> name_token ''Ketamine''
   \<and> name_token ''snorted''
   \<and> (''insufflation'', [''insufflation'', ''snorted'', ''intranasal'', ''nasal'', ''@sniffed''])
       \<in> set ADMINISTRATION_METHODS
   \<and> log_dose_string (sample_user [] []) sample_now ''  2.01g  Ketamine snorted '' =
       (sample_user
          [sample_entry ''ketamine'' (Finite (8840073487319039 / 4398046511104)) ''insufflation'']
          [], [])
   \<and> decimal_numeral ''20'' \<and> unit_token ''ml'' \<and> name_token ''water''
   \<and> name_token ''swallowed''
   \<and> (''oral'', [''oral'', ''swallowed'', ''chewed'', ''@ate'']) \<in> set ADMINISTRATION_METHODS
   \<and> log_dose_string (sample_user [] []) sample_now ''20ml water swallowed'' =
       (sample_user [sample_entry ''water'' (Finite 20) ''oral''] [], [])"
proof -
  have num: "decimal_numeral ''0.4''" "decimal_numeral ''2.01''" "decimal_numeral ''20''"
    by (simp_all add: decimal_numeral_def is_digit_def)
  have un: "unit_token ''ug''" "unit_token ''g''" "unit_token ''ml''"
    by (simp_all add: unit_token_def)
  have bl: "blank '' ''" "blank ''  ''"
    by (simp_all add: blank_def is_space_def)
  have nm: "name_token ''LSD''" "name_token ''sublingual''" "name_token ''Ketamine''"
    "name_token ''snorted''" "name_token ''water''" "name_token ''swallowed''"
    by (simp_all add: name_token_def is_name_char_def)
  have own: "(''sublingual'', [''sublingual'', ''dissolved'']) \<in> set ADMINISTRATION_METHODS"
    "(''insufflation'', [''insufflation'', ''snorted'', ''intranasal'', ''nasal'', ''@sniffed''])
       \<in> set ADMINISTRATION_METHODS"
    "(''oral'', [''oral'', ''swallowed'', ''chewed'', ''@ate'']) \<in> set ADMINISTRATION_METHODS"
    by (simp_all add: ADMINISTRATION_METHODS_def)
  have sp: "list_all is_space []" "list_all is_space ''  ''" "list_all is_space '' ''"
    by (simp_all add: is_space_def)
  have a1: "fquot (py_float ''0.4'') (Finite 1000) = Finite (7378697629483821 / 18446744073709551616)"
    by (simp only: float_text_0_4 quot_1000_sample)
  have a2: "fmul (py_float ''2.01'') (Finite 1000) = Finite (8840073487319039 / 4398046511104)"
    by (simp only: float_text_2_01 mul_1000_sample)
  have 1: "log_dose_string (sample_user [] []) sample_now ''0.4ug LSD sublingual'' =
       (sample_user
          [sample_entry ''lsd'' (Finite (7378697629483821 / 18446744073709551616)) ''sublingual'']
          [], [])"
    using standard_grammar_logged [OF num(1) un(1) bl(1) nm(1) bl(1) nm(2) own(1) _ sp(1) sp(1),
        of "sample_user [] []" sample_now]
    by (simp add: a1 sample_lower sample_user_def sample_entry_def)
  have 2: "log_dose_string (sample_user [] []) sample_now ''  2.01g  Ketamine snorted '' =
       (sample_user
          [sample_entry ''ketamine'' (Finite (8840073487319039 / 4398046511104)) ''insufflation'']
          [], [])"
    using standard_grammar_logged [OF num(2) un(2) bl(2) nm(3) bl(1) nm(4) own(2) _ sp(2) sp(3),
        of "sample_user [] []" sample_now]
    by (simp add: a2 sample_lower sample_user_def sample_entry_def)
  have 3: "log_dose_string (sample_user [] []) sample_now ''20ml water swallowed'' =
       (sample_user [sample_entry ''water'' (Finite 20) ''oral''] [], [])"
    using standard_grammar_logged [OF num(3) un(3) bl(1) nm(5) bl(1) nm(6) own(3) _ sp(1) sp(1),
        of "sample_user [] []" sample_now]
    by (simp add: float_text_20 sample_lower sample_user_def sample_entry_def)
  show ?thesis
    using num un bl nm own 1 2 3 by simp
qed



lemma match_standard_needs_digit: "s = [] \<or> \<not> is_digit (hd s) \<Longrightarrow> match_standard s = None"
  by (cases s) (auto simp: match_standard_def amount_group_def many1_def)

lemma match_verb_needs_at: "s = [] \<or> hd s \<noteq> CHR ''@'' \<Longrightarrow> match_verb s = None"
  by (cases s) (auto simp: match_verb_def verb_group_def)

lemma patterns_exclusive: "match_verb s = Some v \<Longrightarrow> match_standard s = None"
  using match_verb_needs_at [of s] match_standard_needs_digit [of s] at_not_digit
  by (cases "s = [] \<or> hd s \<noteq> CHR ''@''") auto




text \<open>
  C3. A text that, once trimmed, matches neither pattern, or matches the standard
  pattern with a route token outside the alias table, or matches the verb pattern with
  a verb outside the alias table, is not logged: the call returns the store as it was
  (history and working view unchanged) and prints one parse-error line.
\<close>

theorem rejected_text_not_logged:
  assumes "(match_standard (strip s) = None \<and> match_verb (strip s) = None)
     \<or> (\<exists>amt un sub rt. match_standard (strip s) = Some (amt, un, sub, rt)
           \<and> ROUTE_ALIASES rt = None)
     \<or> (\<exists>verb amt un sub. match_verb (strip s) = Some (verb, amt, un, sub)
           \<and> ROUTE_ALIASES verb = None)"
  shows "fst (log_dose_string self now s) = self
     \<and> entries (fst (log_dose_string self now s)) = entries self
     \<and> (\<exists>msg. snd (log_dose_string self now s) = [''Error parsing dose string: '' @ msg])"
proof -
  have "\<exists>msg. parse_dose_string s = Inl (DoseParsingError msg)"
    using assms
  proof (elim disjE conjE exE)
    assume "match_standard (strip s) = None" "match_verb (strip s) = None"
    then show ?thesis by (simp add: parse_dose_string_def)
  next
    fix amt un sub rt
    assume "match_standard (strip s) = Some (amt, un, sub, rt)" "ROUTE_ALIASES rt = None"
    then show ?thesis by (simp add: parse_dose_string_def)
  next
    fix verb amt un sub
    assume v: "match_verb (strip s) = Some (verb, amt, un, sub)" and "ROUTE_ALIASES verb = None"
    moreover have "match_standard (strip s) = None"
      using v by (rule patterns_exclusive)
    ultimately show ?thesis by (simp add: parse_dose_string_def)
  qed
  then show ?thesis
    by (auto simp: log_dose_string_def log_dose_string_body_def)
qed

theorem rejected_text_not_logged_witness:
  "match_standard (strip ''20mg caffeine orally'') = Some (''20'', ''mg'', ''caffeine'', ''orally'')
   \<and> ROUTE_ALIASES ''orally'' = None
   \<and> fst (log_dose_string (sample_user [sample_entry ''lsd'' (Finite 1) ''oral''] []) sample_now
        ''20mg caffeine orally'') = sample_user [sample_entry ''lsd'' (Finite 1) ''oral''] []
   \<and> match_standard (strip ''twenty mg'') = None \<and> match_verb (strip ''twenty mg'') = None
   \<and> fst (log_dose_string (sample_user [sample_entry ''lsd'' (Finite 1) ''oral''] []) sample_now
        ''twenty mg'') = sample_user [sample_entry ''lsd'' (Finite 1) ''oral''] []"
proof -
  have 1: "match_standard (strip ''20mg caffeine orally'') = Some (''20'', ''mg'', ''caffeine'', ''orally'')"
    by code_simp
  have 2: "ROUTE_ALIASES ''orally'' = None"
    by (simp add: ROUTE_ALIASES_def alias_pairs_def ADMINISTRATION_METHODS_def)
  have 3: "match_standard (strip ''twenty mg'') = None" and 4: "match_verb (strip ''twenty mg'') = None"
    by code_simp+
  show ?thesis
    using 1 2 3 4
      rejected_text_not_logged [of "''20mg caffeine orally''" "sample_user [sample_entry ''lsd'' (Finite 1) ''oral''] []" sample_now]
      rejected_text_not_logged [of "''twenty mg''" "sample_user [sample_entry ''lsd'' (Finite 1) ''oral''] []" sample_now]
    by simp
qed

lemma nonneg_cases: "fle (Finite 0) a \<longleftrightarrow> a = PInf \<or> (\<exists>v. a = Finite v \<and> 0 \<le> v)"
  by (cases a) (simp_all add: fle_def float_key_def)

lemma convert_amount_nonneg:
  assumes "fle (Finite 0) a" and "convert_amount un a = Inr a'"
  shows "fle (Finite 0) a'"
proof -
  from assms(1) consider "a = PInf" | v where "a = Finite v" "0 \<le> v"
    by (auto simp: nonneg_cases)
  then show ?thesis
  proof cases
    case 1
    with assms(2) show ?thesis
      by (auto simp: convert_amount_def fdiv_def nonneg_cases split: if_splits)
  next
    case 2
    have "fle (Finite 0) (round64 (v / 1000))" and "fle (Finite 0) (round64 (v * 1000))"
      using 2(2) by (simp_all add: round64_nonneg)
    moreover have "fle (Finite 0) (Finite v)"
      using 2(2) by (simp add: nonneg_cases)
    ultimately show ?thesis
      using 2 assms(2) by (auto simp: convert_amount_def fdiv_def split: if_splits)
  qed
qed

text \<open>
  C6, as the code has it. An entry appended by \<open>log_dose_string\<close> has a non-negative
  amount (the numeral has no sign, and may be zero) and the unit field \<open>mg\<close>; \<open>log_dose\<close>
  always appends an entry, which holds the amount it is given, whatever its sign, and
  the unit field \<open>mg\<close>.
\<close>

theorem logged_amount_not_checked:
  "(fst (log_dose_string self now s) = self
     \<or> (\<exists>e. fst (log_dose_string self now s) = self\<lparr>entries := entries self @ [e]\<rparr>
            \<and> fle (Finite 0) (amount e) \<and> unit e = ''mg''))
   \<and> (\<exists>e. fst (log_dose self now sub a r) = self\<lparr>entries := entries self @ [e]\<rparr>
            \<and> amount e = a \<and> unit e = ''mg'')"
proof
  show "fst (log_dose_string self now s) = self
     \<or> (\<exists>e. fst (log_dose_string self now s) = self\<lparr>entries := entries self @ [e]\<rparr>
            \<and> fle (Finite 0) (amount e) \<and> unit e = ''mg'')"
  proof (cases "log_dose_string_body self now s")
    case (Inl e)
    then show ?thesis
      by (cases e) (simp_all add: log_dose_string_def)
  next
    case (Inr self')
    then obtain a0 un sub0 rv sr a' where p: "parse_dose_string s = Inr (a0, un, sub0, rv)"
      and c: "convert_amount un a0 = Inr a'"
      and self': "self' = self\<lparr>entries := entries self @
          [\<lparr>substance = sub0, amount = a', route = sr, timestamp = now, unit = ''mg''\<rparr>]\<rparr>"
      by (auto simp: log_dose_string_body_def split: sum.splits option.splits if_splits)
    from p have "fle (Finite 0) a0"
      by (auto simp: parse_dose_string_def py_float_nonneg split: option.splits if_splits)
    then have "fle (Finite 0) a'"
      using c by (rule convert_amount_nonneg)
    with Inr self' show ?thesis
      by (auto simp: log_dose_string_def)
  qed
  define standard where "standard =
    (case ROUTE_ALIASES (if ROUTE_ALIASES r \<noteq> None then r else ''other'') of
       None \<Rightarrow> ''other'' | Some sr \<Rightarrow> sr)"
  have "fst (log_dose self now sub a r) = self\<lparr>entries := entries self @
      [\<lparr>substance = sub, amount = a, route = standard, timestamp = now, unit = ''mg''\<rparr>]\<rparr>"
    by (simp add: log_dose_def Let_def standard_def)
  then show "\<exists>e. fst (log_dose self now sub a r) = self\<lparr>entries := entries self @ [e]\<rparr>
      \<and> amount e = a \<and> unit e = ''mg''"
    by (intro exI [of _ "\<lparr>substance = sub, amount = a, route = standard, timestamp = now,
      unit = ''mg''\<rparr>"]) simp
qed

text \<open>
  The amount of a logged entry need not be strictly positive: the text \<open>0mg water oral\<close>
  is logged with the amount 0, and \<open>log_dose\<close> with the amount -5 is logged as it is.
\<close>

theorem zero_and_negative_amounts_logged:
  "entries (fst (log_dose_string (sample_user [] []) sample_now ''0mg water oral''))
     = [sample_entry ''water'' (Finite 0) ''oral'']
   \<and> \<not> flt (Finite 0) (amount (sample_entry ''water'' (Finite 0) ''oral''))
   \<and> entries (fst (log_dose (sample_user [] []) sample_now ''water'' (Finite (- 5)) ''oral''))
     = [sample_entry ''water'' (Finite (- 5)) ''oral'']
   \<and> \<not> flt (Finite 0) (amount (sample_entry ''water'' (Finite (- 5)) ''oral''))"
  by code_simp

subsection \<open>The median\<close>

lemma index_in_range: "k < length xs \<Longrightarrow> index xs (int k) = Inr (xs ! k)"
  by (simp add: index_def)

lemma median_dose_sorted_median:
  assumes "filtered_entries self \<noteq> []"
    and "NaN \<notin> set (map amount (filtered_entries self))"
  shows "median_dose self = Some (Inr (sorted_median (map amount (filtered_entries self))))"
proof -
  define doses where "doses = sort_key float_key (map amount (filtered_entries self))"
  define k where "k = length doses div 2"
  have srt: "py_sorted (map amount (filtered_entries self)) = Some doses"
    using assms(2) by (simp add: py_sorted_def doses_def)
  have pos: "0 < length doses"
    using assms(1) by (simp add: doses_def)
  have mid: "int (length doses) div 2 = int k"
    by (simp add: k_def zdiv_int)
  have k_lt: "k < length doses"
    using pos by (simp add: k_def)
  have odd_iff: "(int (length doses) mod 2 \<noteq> 0) = odd (length doses)"
    by presburger
  have two: "fdiv x (Finite 2) = Inr (fquot x (Finite 2))" for x
    by (simp add: fdiv_def)
  show ?thesis
  proof (cases "odd (length doses)")
    case True
    then show ?thesis
      using assms(1) k_lt odd_iff
      by (simp add: median_dose_def srt sorted_median_def Let_def mid index_in_range
          flip: doses_def k_def)
  next
    case False
    then have "1 \<le> k"
      using pos unfolding k_def by presburger
    then have pred: "int k - 1 = int (k - 1)" and pred_lt: "k - 1 < length doses"
      using k_lt by simp_all
    from False show ?thesis
      using assms(1) k_lt odd_iff pred_lt
      by (simp add: median_dose_def srt sorted_median_def Let_def mid pred index_in_range two
          flip: doses_def k_def)
  qed
qed

lemma sorted_count_le:
  fixes ys :: "'a::linorder list"
  assumes "sorted ys" "k < length ys" "ys ! k \<le> m"
  shows "k + 1 \<le> length (filter (\<lambda>x. x \<le> m) ys)"
proof -
  have all: "\<forall>x \<in> set (take (k + 1) ys). x \<le> m"
  proof
    fix x assume "x \<in> set (take (k + 1) ys)"
    then obtain i where i: "i < k + 1" "i < length ys" "x = ys ! i"
      by (auto simp: in_set_conv_nth)
    then have "ys ! i \<le> ys ! k"
      using assms(1,2) by (intro sorted_nth_mono) simp_all
    with i assms(3) show "x \<le> m" by simp
  qed
  have "filter (\<lambda>x. x \<le> m) ys =
        filter (\<lambda>x. x \<le> m) (take (k + 1) ys) @ filter (\<lambda>x. x \<le> m) (drop (k + 1) ys)"
    by (simp only: filter_append [symmetric] append_take_drop_id)
  then have "length (filter (\<lambda>x. x \<le> m) ys) =
        length (filter (\<lambda>x. x \<le> m) (take (k + 1) ys))
        + length (filter (\<lambda>x. x \<le> m) (drop (k + 1) ys))"
    by (simp only: length_append)
  moreover have "filter (\<lambda>x. x \<le> m) (take (k + 1) ys) = take (k + 1) ys"
    using all by (simp add: filter_id_conv)
  ultimately show ?thesis
    using assms(2) by simp
qed

lemma sorted_count_ge:
  fixes ys :: "'a::linorder list"
  assumes "sorted ys" "k < length ys" "m \<le> ys ! k"
  shows "length ys - k \<le> length (filter (\<lambda>x. m \<le> x) ys)"
proof -
  have all: "\<forall>x \<in> set (drop k ys). m \<le> x"
  proof
    fix x assume "x \<in> set (drop k ys)"
    then obtain i where i: "i < length ys - k" "x = ys ! (k + i)"
      by (auto simp: in_set_conv_nth)
    then have "ys ! k \<le> ys ! (k + i)"
      using assms(1) by (intro sorted_nth_mono) simp_all
    with i assms(3) show "m \<le> x" by simp
  qed
  have "filter (\<lambda>x. m \<le> x) ys =
        filter (\<lambda>x. m \<le> x) (take k ys) @ filter (\<lambda>x. m \<le> x) (drop k ys)"
    by (simp only: filter_append [symmetric] append_take_drop_id)
  then have "length (filter (\<lambda>x. m \<le> x) ys) =
        length (filter (\<lambda>x. m \<le> x) (take k ys)) + length (filter (\<lambda>x. m \<le> x) (drop k ys))"
    by (simp only: length_append)
  moreover have "filter (\<lambda>x. m \<le> x) (drop k ys) = drop k ys"
    using all by (simp add: filter_id_conv)
  ultimately show ?thesis
    by simp
qed

lemma count_by_key:
  "length (filter P (map float_key (sort_key float_key xs))) =
     length (filter (\<lambda>x. P (float_key x)) xs)"
proof -
  have "length (filter P (map float_key (sort_key float_key xs))) =
      length (filter (\<lambda>x. P (float_key x)) (sort_key float_key xs))"
    by (simp add: filter_map comp_def)
  also have "\<dots> = length (filter (\<lambda>x. P (float_key x)) xs)"
    by (simp add: filter_sort)
  finally show ?thesis .
qed

lemma odd_median_splits:
  assumes "odd (length xs)" and "NaN \<notin> set xs"
  shows "length xs \<le> 2 * length (filter (\<lambda>x. fle x (sorted_median xs)) xs)"
    and "length xs \<le> 2 * length (filter (\<lambda>x. fle (sorted_median xs) x) xs)"
proof -
  define ys where "ys = sort_key float_key xs"
  define k where "k = length ys div 2"
  define m where "m = sorted_median xs"
  have len: "length ys = length xs" and set_ys: "set ys = set xs"
    by (simp_all add: ys_def)
  have srt: "sorted (map float_key ys)"
    by (simp add: ys_def)
  have k_lt: "k < length ys"
    using assms(1) len by (cases "length ys") (simp_all add: k_def)
  have "odd (length ys)"
    using assms(1) len by simp
  then have m: "m = ys ! k"
    by (simp add: m_def sorted_median_def Let_def flip: ys_def k_def)
  have "ys ! k \<in> set ys"
    using k_lt by (rule nth_mem)
  then have m_in: "m \<in> set xs"
    by (simp only: m set_ys)
  have m_ok: "m \<noteq> NaN"
  proof
    assume "m = NaN"
    with m_in assms(2) show False by simp
  qed
  have key_m: "map float_key ys ! k = float_key m"
    using k_lt by (simp add: m)
  have "k + 1 \<le> length (filter (\<lambda>x. x \<le> float_key m) (map float_key ys))"
    using srt k_lt key_m by (intro sorted_count_le) simp_all
  then have le: "k + 1 \<le> length (filter (\<lambda>x. float_key x \<le> float_key m) xs)"
    unfolding ys_def count_by_key .
  have "length (map float_key ys) - k \<le> length (filter (\<lambda>x. float_key m \<le> x) (map float_key ys))"
    using srt k_lt key_m by (intro sorted_count_ge) simp_all
  then have "length ys - k \<le> length (filter (\<lambda>x. float_key m \<le> x) (map float_key ys))"
    by (simp only: length_map)
  then have ge: "length xs - k \<le> length (filter (\<lambda>x. float_key m \<le> float_key x) xs)"
    unfolding ys_def count_by_key by (simp only: length_sort)
  have ok: "x \<noteq> NaN" if "x \<in> set xs" for x
    using that assms(2) by blast
  have c1: "filter (\<lambda>x. fle x m) xs = filter (\<lambda>x. float_key x \<le> float_key m) xs"
    by (rule filter_cong) (simp_all add: fle_def ok m_ok)
  have c2: "filter (\<lambda>x. fle m x) xs = filter (\<lambda>x. float_key m \<le> float_key x) xs"
    by (rule filter_cong) (simp_all add: fle_def ok m_ok)
  have n1: "length xs \<le> 2 * (k + 1)" and n2: "length xs \<le> 2 * (length xs - k)"
    unfolding k_def len by presburger+
  from le have "2 * (k + 1) \<le> 2 * length (filter (\<lambda>x. float_key x \<le> float_key m) xs)"
    by (rule mult_le_mono2)
  with n1 have "length xs \<le> 2 * length (filter (\<lambda>x. fle x m) xs)"
    unfolding c1 by (rule le_trans)
  then show "length xs \<le> 2 * length (filter (\<lambda>x. fle x (sorted_median xs)) xs)"
    unfolding m_def .
  from ge have "2 * (length xs - k) \<le> 2 * length (filter (\<lambda>x. float_key m \<le> float_key x) xs)"
    by (rule mult_le_mono2)
  with n2 have "length xs \<le> 2 * length (filter (\<lambda>x. fle m x) xs)"
    unfolding c2 by (rule le_trans)
  then show "length xs \<le> 2 * length (filter (\<lambda>x. fle (sorted_median xs) x) xs)"
    unfolding m_def .
qed

text \<open>
  C9, as the code has it. On a non-empty working view holding no NaN, \<open>median_dose\<close>
  raises nothing and returns, of the sorted amounts, the middle element for an odd
  count and, for an even count, the float result of \<open>(a + b) / 2\<close> on the two middle
  elements. For an odd count at least half of the amounts are at most that value and
  at least half are at least that value. Amounts 10, 20, 30 give 20, and amounts
  10, 20 give 15.
\<close>

theorem median_dose_of_sorted_amounts:
  assumes "filtered_entries self \<noteq> []"
    and "NaN \<notin> set (map amount (filtered_entries self))"
  shows "median_dose self = Some (Inr (sorted_median (map amount (filtered_entries self))))
    \<and> (odd (length (filtered_entries self)) \<longrightarrow>
         length (filtered_entries self)
           \<le> 2 * length (filter (\<lambda>x. fle x (sorted_median (map amount (filtered_entries self))))
                  (map amount (filtered_entries self)))
       \<and> length (filtered_entries self)
           \<le> 2 * length (filter (\<lambda>x. fle (sorted_median (map amount (filtered_entries self))) x)
                  (map amount (filtered_entries self))))"
  using median_dose_sorted_median [OF assms]
    odd_median_splits [of "map amount (filtered_entries self)"] assms(2)
  by simp

theorem median_dose_of_sorted_amounts_witness:
  "filtered_entries (sample_user [] [sample_entry ''a'' (Finite 30) ''oral'',
       sample_entry ''a'' (Finite 10) ''oral'', sample_entry ''a'' (Finite 20) ''oral'']) \<noteq> []
   \<and> NaN \<notin> set (map amount (filtered_entries (sample_user [] [sample_entry ''a'' (Finite 30) ''oral'',
       sample_entry ''a'' (Finite 10) ''oral'', sample_entry ''a'' (Finite 20) ''oral''])))
   \<and> odd (length (filtered_entries (sample_user [] [sample_entry ''a'' (Finite 30) ''oral'',
       sample_entry ''a'' (Finite 10) ''oral'', sample_entry ''a'' (Finite 20) ''oral''])))
   \<and> median_dose (sample_user [] [sample_entry ''a'' (Finite 30) ''oral'',
       sample_entry ''a'' (Finite 10) ''oral'', sample_entry ''a'' (Finite 20) ''oral''])
       = Some (Inr (Finite 20))
   \<and> filtered_entries (sample_user [] [sample_entry ''a'' (Finite 20) ''oral'',
       sample_entry ''a'' (Finite 10) ''oral'']) \<noteq> []
   \<and> median_dose (sample_user [] [sample_entry ''a'' (Finite 20) ''oral'',
       sample_entry ''a'' (Finite 10) ''oral'']) = Some (Inr (Finite 15))"
  using median_dose_of_sorted_amounts [of "sample_user [] [sample_entry ''a'' (Finite 30) ''oral'',
       sample_entry ''a'' (Finite 10) ''oral'', sample_entry ''a'' (Finite 20) ''oral'']"]
    median_dose_of_sorted_amounts [of "sample_user [] [sample_entry ''a'' (Finite 20) ''oral'',
       sample_entry ''a'' (Finite 10) ''oral'']"]
  by (simp add: sample_user_def sample_entry_def sorted_median_def float_key_def
      round64_30 round64_15)

text \<open>
  The median of an even count is not always the mean of the two middle amounts: on the
  view holding the doubles of \<open>0.1\<close> and \<open>0.2\<close> the sum is rounded (a tie, to the even
  significand), and \<open>median_dose\<close> returns the double 0.15000000000000002, which is not
  half the sum of the two stored values.
\<close>

theorem median_dose_not_the_mean:
  "map amount (filtered_entries (sample_user [] [sample_entry ''x'' (py_float ''0.1'') ''oral'',
       sample_entry ''x'' (py_float ''0.2'') ''oral'']))
     = [Finite (3602879701896397 / 36028797018963968), Finite (3602879701896397 / 18014398509481984)]
   \<and> median_dose (sample_user [] [sample_entry ''x'' (py_float ''0.1'') ''oral'',
       sample_entry ''x'' (py_float ''0.2'') ''oral''])
     = Some (Inr (Finite (1351079888211149 / 9007199254740992)))
   \<and> (3602879701896397 / 36028797018963968 + 3602879701896397 / 18014398509481984) / 2
     \<noteq> (1351079888211149 / 9007199254740992 :: rat)"
proof -
  define u where "u = sample_user [] [sample_entry ''x'' (py_float ''0.1'') ''oral'',
       sample_entry ''x'' (py_float ''0.2'') ''oral'']"
  have amounts: "map amount (filtered_entries u)
     = [Finite (3602879701896397 / 36028797018963968), Finite (3602879701896397 / 18014398509481984)]"
    by (simp add: u_def sample_user_def sample_entry_def float_text_0_1 float_text_0_2)
  have "sorted_median [Finite (3602879701896397 / 36028797018963968),
      Finite (3602879701896397 / 18014398509481984)]
    = fquot (fadd (Finite (3602879701896397 / 36028797018963968))
        (Finite (3602879701896397 / 18014398509481984))) (Finite 2)"
    by (simp add: sorted_median_def float_key_def del: fadd.simps fquot.simps)
  also have "\<dots> = Finite (1351079888211149 / 9007199254740992)"
    by (simp only: add_sample half_sample)
  finally have med: "sorted_median (map amount (filtered_entries u))
      = Finite (1351079888211149 / 9007199254740992)"
    by (simp only: amounts)
  have "filtered_entries u \<noteq> []"
    by (simp add: u_def sample_user_def)
  moreover have "NaN \<notin> set (map amount (filtered_entries u))"
    by (simp only: amounts) simp
  ultimately have "median_dose u = Some (Inr (sorted_median (map amount (filtered_entries u))))"
    by (rule median_dose_sorted_median)
  then have "median_dose u = Some (Inr (Finite (1351079888211149 / 9007199254740992)))"
    by (simp only: med)
  then show ?thesis
    using amounts unfolding u_def by simp
qed

end
